theory Spec2Isabelle
  imports Main
begin

section \<open>Values, objects and the world of the validator process\<close>

text \<open>
  The module \<^verbatim>\<open>sawtooth_validator/server/core.py\<close> is the composition root of the
  validator: its class \<^verbatim>\<open>Validator\<close> constructs every component, hands each one
  references to the others, and starts and stops them. The collaborating classes live in
  other modules, so an object is modelled by its class and by the arguments its
  constructor received, a reference is the position of the object in the heap, and what
  the validator does to its collaborators is the trace of the calls it makes on them.
\<close>

datatype cls =
    LMDBNoLockDatabase | StateViewFactory | StateDeltaStore | TransactionReceiptStore
  | BlockStore | BlockCache | InstrumentedThreadPoolExecutor | Dispatcher | Interconnect
  | ContextManager | BatchTracker | TransactionExecutor | SettingsViewFactory
  | StateDeltaProcessor | EventBroadcaster | Gossip | Completer | BroadcastBlockSender
  | BroadcastBatchSender | ChainIdManager | IdentityViewFactory | IdentityCache
  | PermissionVerifier | IdentityObserver | DefaultBatchInjectorFactory | BlockPublisher
  | BlockValidator | ChainController | GenesisController | Responder | Event

text \<open>
  The two kinds of item that travel between the components. A block carries the fields the
  data model lists; a batch carries its own hash and the hashes it depends on.
\<close>

record block =
  block_id :: string
  previous_block_id :: string
  block_num :: nat
  batch_ids :: "string list"
  state_root_hash :: string

record batch =
  batch_id :: string
  dependencies :: "string list"

text \<open>
  \<open>Ref n\<close> is the object at heap position \<open>n\<close>; \<open>Attr v a\<close> is what reading attribute
  \<open>a\<close> of \<open>v\<close> gives (a bound method such as \<^verbatim>\<open>block_publisher.queue_batch\<close>, or a
  property such as \<^verbatim>\<open>block_publisher.chain_head_lock\<close>); \<open>Ret k\<close> is the value
  returned by the call recorded at position \<open>k\<close> of the trace; \<open>Dec m e\<close> is the decimal
  literal \<open>m / 10 ^ e\<close>; \<open>Global\<close> names a module-level function or constant; \<open>Self\<close> is
  the validator instance; \<open>Thread t\<close> is the thread with identity \<open>t\<close>; \<open>Handler v\<close> is
  the two-argument lambda whose body calls \<open>v\<close> without arguments.
\<close>

datatype val =
    NoneV
  | BoolV bool
  | IntV int
  | Dec int nat
  | StrV string
  | ListV "val list"
  | Ref nat
  | Self
  | Global string
  | Attr val string
  | Ret nat
  | Thread nat
  | Handler val
  | BlockV block
  | BatchV batch

datatype arg = Pos val | Kw string val

record obj =
  cls_of :: cls
  args :: "arg list"

text \<open>
  \<open>New n\<close>: the object at heap position \<open>n\<close> was constructed. \<open>Call f as\<close>: \<open>f\<close> was
  called with \<open>as\<close> and its result was not inspected. \<open>Query f as r\<close>: \<open>f\<close> was called
  and the caller went on with the result \<open>r\<close>. \<open>Internal c s\<close>: a step that a
  collaborator of class \<open>c\<close> takes inside one of its own methods.
\<close>

datatype event =
    New nat
  | Call val "arg list"
  | Query val "arg list" val
  | Internal cls string

text \<open>
  Besides the heap and the trace, the world holds the state that the collaborators keep
  between calls, each indexed by the heap position of its owner: the chain head of a chain
  controller (\<open>None\<close> while there is none), the pending-batch pool of a block publisher
  and the items a completer holds back.
\<close>

record world =
  heap :: "obj list"
  trace :: "event list"
  chain_head :: "nat \<Rightarrow> block option"
  batch_pool :: "nat \<Rightarrow> batch list"
  held :: "nat \<Rightarrow> val list"

definition new :: "cls \<Rightarrow> arg list \<Rightarrow> world \<Rightarrow> val \<times> world" where
  "new c as w =
     (Ref (length (heap w)),
      w\<lparr>heap := heap w @ [\<lparr>cls_of = c, args = as\<rparr>],
        trace := trace w @ [New (length (heap w))]\<rparr>)"

definition call :: "val \<Rightarrow> arg list \<Rightarrow> world \<Rightarrow> world" where
  "call f as w = w\<lparr>trace := trace w @ [Call f as]\<rparr>"

definition call_ret :: "val \<Rightarrow> arg list \<Rightarrow> world \<Rightarrow> val \<times> world" where
  "call_ret f as w = (Ret (length (trace w)), w\<lparr>trace := trace w @ [Call f as]\<rparr>)"

definition query :: "val \<Rightarrow> arg list \<Rightarrow> val \<Rightarrow> world \<Rightarrow> world" where
  "query f as r w = w\<lparr>trace := trace w @ [Query f as r]\<rparr>"

text \<open>Looking an object up: \<open>None\<close> for a value that is not a reference into the heap.\<close>

fun deref :: "world \<Rightarrow> val \<Rightarrow> obj option" where
  "deref w (Ref n) = (if n < length (heap w) then Some (heap w ! n) else None)"
| "deref w _ = None"

fun kwarg_in :: "arg list \<Rightarrow> string \<Rightarrow> val option" where
  "kwarg_in [] k = None"
| "kwarg_in (Kw k' v # as) k = (if k' = k then Some v else kwarg_in as k)"
| "kwarg_in (Pos v # as) k = kwarg_in as k"

definition kwarg :: "world \<Rightarrow> val \<Rightarrow> string \<Rightarrow> val option" where
  "kwarg w r k = (case deref w r of None \<Rightarrow> None | Some ob \<Rightarrow> kwarg_in (args ob) k)"

definition class_of :: "world \<Rightarrow> val \<Rightarrow> cls option" where
  "class_of w r = map_option cls_of (deref w r)"


text \<open>The method calls that a trace makes on the receiver \<open>r\<close>, oldest first.\<close>

fun calls_on :: "val \<Rightarrow> event list \<Rightarrow> (string \<times> arg list) list" where
  "calls_on r [] = []"
| "calls_on r (Call (Attr r' m) as # es) =
     (if r' = r then (m, as) # calls_on r es else calls_on r es)"
| "calls_on r (e # es) = calls_on r es"

section \<open>Validator.__init__\<close>

text \<open>
  \<^verbatim>\<open>os.path.join(a, b)\<close> on POSIX: an absolute \<open>b\<close> discards \<open>a\<close>; otherwise the two
  are joined with one separator unless \<open>a\<close> is empty or already ends with one.
  \<^verbatim>\<open>s[-2:]\<close> is the last two characters of \<open>s\<close>, or all of \<open>s\<close> when it is shorter.
\<close>

definition path_join :: "string \<Rightarrow> string \<Rightarrow> string" where
  "path_join a b =
     (if b \<noteq> [] \<and> hd b = CHR ''/'' then b
      else if a = [] \<or> last a = CHR ''/'' then a @ b
      else a @ ''/'' @ b)"

definition last_two :: "string \<Rightarrow> string" where
  "last_two s = drop (length s - 2) s"

definition db_filename :: "string \<Rightarrow> string \<Rightarrow> string \<Rightarrow> string" where
  "db_filename data_dir prefix bind_network =
     path_join data_dir (prefix @ last_two bind_network @ ''.lmdb'')"

record init_args =
  bind_network :: string
  bind_component :: string
  endpoint :: string
  peering :: string
  seeds_list :: "string list"
  peer_list :: "string list"
  data_dir :: string
  config_dir :: string
  identity_signing_key :: string
  scheduler_type :: string
  permissions :: val
  network_public_key :: "string option"
  network_private_key :: "string option"
  roles :: val
  metrics_registry :: val

text \<open>
  What \<^verbatim>\<open>__init__\<close> takes from outside the repository: the SHA-512 hex digest of the
  current time (of which the first 23 characters become the ZeroMQ identity) and the
  public key that \<^verbatim>\<open>sawtooth_signing\<close> derives from the signing key.
\<close>

record init_env =
  time_digest :: string
  generate_public_key :: "string \<Rightarrow> string"

definition opt_str :: "string option \<Rightarrow> val" where
  "opt_str s = (case s of None \<Rightarrow> NoneV | Some x \<Rightarrow> StrV x)"

text \<open>The object references that \<^verbatim>\<open>__init__\<close> stores on \<^verbatim>\<open>self\<close>.\<close>

record validator =
  self_component_dispatcher :: val
  self_component_service :: val
  self_component_thread_pool :: val
  self_network_dispatcher :: val
  self_network_service :: val
  self_network_thread_pool :: val
  self_sig_pool :: val
  self_context_manager :: val
  self_executor :: val
  self_genesis_controller :: val
  self_gossip :: val
  self_block_publisher :: val
  self_chain_controller :: val
  self_block_validator :: val

definition init :: "init_args \<Rightarrow> init_env \<Rightarrow> world \<Rightarrow> validator \<times> world" where
  "init a env w0 =
  (let
    \<comment> \<open>Setup Global State Database and Factory\<close>
    global_state_db_filename = db_filename (data_dir a) ''merkle-'' (bind_network a);
    w = call (Global ''LOGGER.debug'')
          [Pos (StrV ''global state database file is %s''), Pos (StrV global_state_db_filename)] w0;
    (global_state_db, w) = new LMDBNoLockDatabase [Pos (StrV global_state_db_filename), Pos (StrV ''c'')] w;
    (state_view_factory, w) = new StateViewFactory [Pos global_state_db] w;
    \<comment> \<open>Setup State Delta Store\<close>
    delta_db_filename = db_filename (data_dir a) ''state-deltas-'' (bind_network a);
    w = call (Global ''LOGGER.debug'')
          [Pos (StrV ''state delta store file is %s''), Pos (StrV delta_db_filename)] w;
    (state_delta_db, w) = new LMDBNoLockDatabase [Pos (StrV delta_db_filename), Pos (StrV ''c'')] w;
    (state_delta_store, w) = new StateDeltaStore [Pos state_delta_db] w;
    \<comment> \<open>Setup Receipt Store\<close>
    receipt_db_filename = db_filename (data_dir a) ''txn_receipts-'' (bind_network a);
    w = call (Global ''LOGGER.debug'')
          [Pos (StrV ''txn receipt store file is %s''), Pos (StrV receipt_db_filename)] w;
    (receipt_db, w) = new LMDBNoLockDatabase [Pos (StrV receipt_db_filename), Pos (StrV ''c'')] w;
    (receipt_store, w) = new TransactionReceiptStore [Pos receipt_db] w;
    \<comment> \<open>Setup Block Store\<close>
    block_db_filename = db_filename (data_dir a) ''block-'' (bind_network a);
    w = call (Global ''LOGGER.debug'')
          [Pos (StrV ''block store file is %s''), Pos (StrV block_db_filename)] w;
    (block_db, w) = new LMDBNoLockDatabase [Pos (StrV block_db_filename), Pos (StrV ''c'')] w;
    (block_store, w) = new BlockStore [Pos block_db] w;
    (block_cache, w) = new BlockCache
        [Pos block_store, Kw ''keep_time'' (IntV 300), Kw ''purge_frequency'' (IntV 30)] w;
    \<comment> \<open>Setup Thread Pools\<close>
    (component_thread_pool, w) = new InstrumentedThreadPoolExecutor
        [Kw ''max_workers'' (IntV 10), Kw ''name'' (StrV ''Component'')] w;
    (network_thread_pool, w) = new InstrumentedThreadPoolExecutor
        [Kw ''max_workers'' (IntV 10), Kw ''name'' (StrV ''Network'')] w;
    (sig_pool, w) = new InstrumentedThreadPoolExecutor
        [Kw ''max_workers'' (IntV 3), Kw ''name'' (StrV ''Signature'')] w;
    \<comment> \<open>Setup Dispatchers\<close>
    (component_dispatcher, w) = new Dispatcher [Kw ''metrics_registry'' (metrics_registry a)] w;
    (network_dispatcher, w) = new Dispatcher [Kw ''metrics_registry'' (metrics_registry a)] w;
    \<comment> \<open>Setup Services\<close>
    (component_service, w) = new Interconnect
        [Pos (StrV (bind_component a)),
         Pos component_dispatcher,
         Kw ''secured'' (BoolV False),
         Kw ''heartbeat'' (BoolV False),
         Kw ''max_incoming_connections'' (IntV 20),
         Kw ''monitor'' (BoolV True),
         Kw ''max_future_callback_workers'' (IntV 10),
         Kw ''metrics_registry'' (metrics_registry a)] w;
    zmq_identity = take 23 (time_digest env);
    secure = (network_public_key a \<noteq> None \<and> network_private_key a \<noteq> None);
    (network_service, w) = new Interconnect
        [Pos (StrV (bind_network a)),
         Kw ''dispatcher'' network_dispatcher,
         Kw ''zmq_identity'' (StrV zmq_identity),
         Kw ''secured'' (BoolV secure),
         Kw ''server_public_key'' (opt_str (network_public_key a)),
         Kw ''server_private_key'' (opt_str (network_private_key a)),
         Kw ''heartbeat'' (BoolV True),
         Kw ''public_endpoint'' (StrV (endpoint a)),
         Kw ''connection_timeout'' (IntV 30),
         Kw ''max_incoming_connections'' (IntV 100),
         Kw ''max_future_callback_workers'' (IntV 10),
         Kw ''authorize'' (BoolV True),
         Kw ''public_key'' (StrV (generate_public_key env (identity_signing_key a))),
         Kw ''priv_key'' (StrV (identity_signing_key a)),
         Kw ''roles'' (roles a),
         Kw ''metrics_registry'' (metrics_registry a)] w;
    \<comment> \<open>Setup Transaction Execution Platform\<close>
    (context_manager, w) = new ContextManager [Pos global_state_db, Pos state_delta_store] w;
    (batch_tracker, w) = new BatchTracker [Pos block_store] w;
    (settings_view_factory, w) = new SettingsViewFactory [Pos state_view_factory] w;
    (executor, w) = new TransactionExecutor
        [Kw ''service'' component_service,
         Kw ''context_manager'' context_manager,
         Kw ''settings_view_factory'' settings_view_factory,
         Kw ''scheduler_type'' (StrV (scheduler_type a)),
         Kw ''invalid_observers'' (ListV [batch_tracker]),
         Kw ''metrics_registry'' (metrics_registry a)] w;
    w = call (Attr component_service ''set_check_connections'')
          [Pos (Attr executor ''check_connections'')] w;
    (state_delta_processor, w) = new StateDeltaProcessor
        [Pos component_service, Pos state_delta_store, Pos block_store] w;
    (event_broadcaster, w) = new EventBroadcaster
        [Pos component_service, Pos block_store, Pos receipt_store] w;
    \<comment> \<open>Setup P2P Networking\<close>
    (gossip, w) = new Gossip
        [Pos network_service,
         Kw ''endpoint'' (StrV (endpoint a)),
         Kw ''peering_mode'' (StrV (peering a)),
         Kw ''initial_seed_endpoints'' (ListV (map StrV (seeds_list a))),
         Kw ''initial_peer_endpoints'' (ListV (map StrV (peer_list a))),
         Kw ''minimum_peer_connectivity'' (IntV 3),
         Kw ''maximum_peer_connectivity'' (IntV 10),
         Kw ''topology_check_frequency'' (IntV 1)] w;
    (completer, w) = new Completer [Pos block_store, Pos gossip] w;
    (block_sender, w) = new BroadcastBlockSender [Pos completer, Pos gossip] w;
    (batch_sender, w) = new BroadcastBatchSender [Pos completer, Pos gossip] w;
    (chain_id_manager, w) = new ChainIdManager [Pos (StrV (data_dir a))] w;
    (state_view_factory2, w) = new StateViewFactory [Pos global_state_db] w;
    (identity_view_factory, w) = new IdentityViewFactory [Pos state_view_factory2] w;
    (id_cache, w) = new IdentityCache
        [Pos identity_view_factory, Pos (Attr block_store ''chain_head_state_root'')] w;
    \<comment> \<open>Setup Permissioning\<close>
    (permission_verifier, w) = new PermissionVerifier
        [Pos (permissions a), Pos (Attr block_store ''chain_head_state_root''), Pos id_cache] w;
    (identity_observer, w) = new IdentityObserver
        [Kw ''to_update'' (Attr id_cache ''invalidate''),
         Kw ''forked'' (Attr id_cache ''forked'')] w;
    \<comment> \<open>Setup Journal\<close>
    (batch_injector_factory, w) = new DefaultBatchInjectorFactory
        [Kw ''block_store'' block_store,
         Kw ''state_view_factory'' state_view_factory,
         Kw ''signing_key'' (StrV (identity_signing_key a))] w;
    (squash_handler, w) = call_ret (Attr context_manager ''get_squash_handler'') [] w;
    (block_publisher, w) = new BlockPublisher
        [Kw ''transaction_executor'' executor,
         Kw ''block_cache'' block_cache,
         Kw ''state_view_factory'' state_view_factory,
         Kw ''block_sender'' block_sender,
         Kw ''batch_sender'' batch_sender,
         Kw ''squash_handler'' squash_handler,
         Kw ''chain_head'' (Attr block_store ''chain_head''),
         Kw ''identity_signing_key'' (StrV (identity_signing_key a)),
         Kw ''data_dir'' (StrV (data_dir a)),
         Kw ''config_dir'' (StrV (config_dir a)),
         Kw ''permission_verifier'' permission_verifier,
         Kw ''check_publish_block_frequency'' (Dec 1 1),
         Kw ''batch_observers'' (ListV [batch_tracker]),
         Kw ''batch_injector_factory'' batch_injector_factory,
         Kw ''metrics_registry'' (metrics_registry a)] w;
    (squash_handler2, w) = call_ret (Attr context_manager ''get_squash_handler'') [] w;
    (block_validator, w) = new BlockValidator
        [Kw ''block_cache'' block_cache,
         Kw ''state_view_factory'' state_view_factory,
         Kw ''executor'' executor,
         Kw ''squash_handler'' squash_handler2,
         Kw ''identity_signing_key'' (StrV (identity_signing_key a)),
         Kw ''data_dir'' (StrV (data_dir a)),
         Kw ''config_dir'' (StrV (config_dir a)),
         Kw ''permission_verifier'' permission_verifier] w;
    (chain_controller, w) = new ChainController
        [Kw ''block_cache'' block_cache,
         Kw ''block_validator'' block_validator,
         Kw ''state_view_factory'' state_view_factory,
         Kw ''chain_head_lock'' (Attr block_publisher ''chain_head_lock''),
         Kw ''on_chain_updated'' (Attr block_publisher ''on_chain_updated''),
         Kw ''chain_id_manager'' chain_id_manager,
         Kw ''data_dir'' (StrV (data_dir a)),
         Kw ''config_dir'' (StrV (config_dir a)),
         Kw ''chain_observers''
           (ListV [state_delta_processor,
                   event_broadcaster,
                   receipt_store,
                   batch_tracker,
                   identity_observer]),
         Kw ''metrics_registry'' (metrics_registry a)] w;
    (genesis_controller, w) = new GenesisController
        [Kw ''context_manager'' context_manager,
         Kw ''transaction_executor'' executor,
         Kw ''completer'' completer,
         Kw ''block_store'' block_store,
         Kw ''state_view_factory'' state_view_factory,
         Kw ''identity_key'' (StrV (identity_signing_key a)),
         Kw ''data_dir'' (StrV (data_dir a)),
         Kw ''config_dir'' (StrV (config_dir a)),
         Kw ''chain_id_manager'' chain_id_manager,
         Kw ''batch_sender'' batch_sender] w;
    (responder, w) = new Responder [Pos completer] w;
    w = call (Attr completer ''set_on_batch_received'') [Pos (Attr block_publisher ''queue_batch'')] w;
    w = call (Attr completer ''set_on_block_received'') [Pos (Attr chain_controller ''queue_block'')] w;
    \<comment> \<open>Register Message Handler\<close>
    w = call (Global ''network_handlers.add'')
          [Pos network_dispatcher, Pos network_service, Pos gossip, Pos completer,
           Pos responder, Pos network_thread_pool, Pos sig_pool, Pos permission_verifier] w;
    w = call (Global ''component_handlers.add'')
          [Pos component_dispatcher, Pos gossip, Pos context_manager, Pos executor, Pos completer,
           Pos block_store, Pos batch_tracker, Pos global_state_db,
           Pos (Attr Self ''get_chain_head_state_root_hash''), Pos receipt_store,
           Pos state_delta_processor, Pos state_delta_store, Pos event_broadcaster,
           Pos permission_verifier, Pos component_thread_pool, Pos sig_pool] w
   in
    \<comment> \<open>Store Object References\<close>
    (\<lparr>self_component_dispatcher = component_dispatcher,
      self_component_service = component_service,
      self_component_thread_pool = component_thread_pool,
      self_network_dispatcher = network_dispatcher,
      self_network_service = network_service,
      self_network_thread_pool = network_thread_pool,
      self_sig_pool = sig_pool,
      self_context_manager = context_manager,
      self_executor = executor,
      self_genesis_controller = genesis_controller,
      self_gossip = gossip,
      self_block_publisher = block_publisher,
      self_chain_controller = chain_controller,
      self_block_validator = block_validator\<rparr>, w))"

section \<open>Validator.start, Validator._start, Validator.stop\<close>

text \<open>
  A method of the validator either returns, raises, or is still inside one of its loops
  when the observations of its environment run out. The world reached so far is kept in
  each case, so that the calls made before a loop are visible whether or not it ends.
\<close>

datatype error = AttributeError | ValueError

datatype 'a outcome = Returned 'a | Blocked 'a | Raised error 'a

fun world_of :: "'a outcome \<Rightarrow> 'a" where
  "world_of (Returned w) = w"
| "world_of (Blocked w) = w"
| "world_of (Raised e w) = w"

text \<open>
  \<^verbatim>\<open>while not signal_event.is_set(): signal_event.wait(timeout=20)\<close>.
  The list holds what \<^verbatim>\<open>is_set()\<close> answers at each test of the loop condition, that
  is, whether SIGTERM has arrived by then.
\<close>

fun wait_loop :: "val \<Rightarrow> bool list \<Rightarrow> world \<Rightarrow> world outcome" where
  "wait_loop signal_event [] w = Blocked w"
| "wait_loop signal_event (s # ss) w =
     (let w = query (Attr signal_event ''is_set'') [] (BoolV s) w
      in if s then Returned w
         else wait_loop signal_event ss
                (call (Attr signal_event ''wait'') [Kw ''timeout'' (IntV 20)] w))"

text \<open>The method \<^verbatim>\<open>_start\<close> (an identifier cannot begin with an underscore here).\<close>

definition start' :: "validator \<Rightarrow> bool list \<Rightarrow> world \<Rightarrow> world outcome" where
  "start' v sigs w0 =
  (let
    w = call (Attr (self_network_dispatcher v) ''start'') [] w0;
    w = call (Attr (self_network_service v) ''start'') [] w;
    w = call (Attr (self_gossip v) ''start'') [] w;
    w = call (Attr (self_block_publisher v) ''start'') [] w;
    w = call (Attr (self_chain_controller v) ''start'') [] w;
    (signal_event, w) = new Event [] w;
    w = call (Global ''signal.signal'')
          [Pos (Global ''signal.SIGTERM''), Pos (Handler (Attr signal_event ''set''))] w
   in wait_loop signal_event sigs w)"

text \<open>
  \<^verbatim>\<open>start\<close> asks the genesis controller whether a genesis block is required; the answer
  is \<open>requires_genesis\<close>. The method \<^verbatim>\<open>GenesisController.start\<close> is not part of this
  module, so what it does with the callback it receives is the parameter
  \<open>genesis_start\<close>: given what running the callback does, it transforms the world.
\<close>

definition start ::
  "validator \<Rightarrow> bool \<Rightarrow> ((world \<Rightarrow> world outcome) \<Rightarrow> world \<Rightarrow> world outcome) \<Rightarrow>
   bool list \<Rightarrow> world \<Rightarrow> world outcome" where
  "start v requires_genesis genesis_start sigs w0 =
  (let
    w = call (Attr (self_component_dispatcher v) ''start'') [] w0;
    w = call (Attr (self_component_service v) ''start'') [] w;
    w = query (Attr (self_genesis_controller v) ''requires_genesis'') [] (BoolV requires_genesis) w
   in if requires_genesis
      then genesis_start (start' v sigs)
             (call (Attr (self_genesis_controller v) ''start'') [Pos (Attr Self ''_start'')] w)
      else start' v sigs w)"

text \<open>
  What \<^verbatim>\<open>stop\<close> observes of the threads of the process: the identities that
  \<^verbatim>\<open>threading.enumerate()\<close> returns, the identity of the calling thread, whether a
  thread is alive after a given number of one-second sleeps, and the name and class name
  that the log line prints.
\<close>

record stop_env =
  enumerate_threads :: "nat list"
  current_thread :: nat
  is_alive :: "nat \<Rightarrow> nat \<Rightarrow> bool"
  thread_name :: "nat \<Rightarrow> string"
  thread_class :: "nat \<Rightarrow> string"

fun join_str :: "string \<Rightarrow> string list \<Rightarrow> string" where
  "join_str sep [] = []"
| "join_str sep [x] = x"
| "join_str sep (x # y # ys) = x @ sep @ join_str sep (y # ys)"

definition remaining :: "stop_env \<Rightarrow> nat list \<Rightarrow> string" where
  "remaining env threads =
     join_str '', '' (map (\<lambda>x. thread_name env x @ '' ('' @ thread_class env x @ '')'') threads)"

text \<open>
  The body of \<^verbatim>\<open>for t in threads.copy()\<close> for one thread \<open>t\<close> of the copy; the
  state is the list \<^verbatim>\<open>threads\<close>, the number of sleeps so far and the world.
  \<^verbatim>\<open>threads.remove(t)\<close> removes the first occurrence of \<open>t\<close>, which is there since
  only this iteration removes it.
\<close>

definition join_body :: "stop_env \<Rightarrow> nat \<Rightarrow> nat list \<times> nat \<times> world \<Rightarrow> nat list \<times> nat \<times> world" where
  "join_body env t st =
     (case st of (threads, clock, w) \<Rightarrow>
        (let alive = is_alive env clock t;
             w = query (Attr (Thread t) ''is_alive'') [] (BoolV alive) w;
             (threads, w) =
                (if \<not> alive then (remove1 t threads, call (Attr (Thread t) ''join'') [] w)
                 else (threads, w));
             (clock, w) =
                (if threads \<noteq> [] then (Suc clock, call (Global ''time.sleep'') [Pos (IntV 1)] w)
                 else (clock, w))
         in (threads, clock, w)))"

fun join_pass :: "stop_env \<Rightarrow> nat list \<Rightarrow> nat list \<times> nat \<times> world \<Rightarrow> nat list \<times> nat \<times> world" where
  "join_pass env [] st = st"
| "join_pass env (t # ts) st = join_pass env ts (join_body env t st)"

text \<open>
  \<^verbatim>\<open>while threads:\<close>, with one unit of fuel for each run of the body; \<open>Blocked\<close> when
  the fuel is gone and threads remain.
\<close>

fun join_loop :: "stop_env \<Rightarrow> nat \<Rightarrow> nat list \<times> nat \<times> world \<Rightarrow> world outcome" where
  "join_loop env 0 (threads, clock, w) = (if threads = [] then Returned w else Blocked w)"
| "join_loop env (Suc fuel) (threads, clock, w) =
     (if threads = [] then Returned w
      else
        (let w = (if length threads < 4
                  then call (Global ''LOGGER.info'')
                         [Pos (StrV ''remaining threads: %s''), Pos (StrV (remaining env threads))] w
                  else w)
         in join_loop env fuel (join_pass env threads (threads, clock, w))))"

definition stop :: "validator \<Rightarrow> stop_env \<Rightarrow> nat \<Rightarrow> world \<Rightarrow> world outcome" where
  "stop v env fuel w0 =
  (let
    w = call (Attr (self_gossip v) ''stop'') [] w0;
    w = call (Attr (self_component_dispatcher v) ''stop'') [] w;
    w = call (Attr (self_network_dispatcher v) ''stop'') [] w;
    w = call (Attr (self_network_service v) ''stop'') [] w;
    w = call (Attr (self_component_service v) ''stop'') [] w;
    w = call (Attr (self_network_thread_pool v) ''shutdown'') [Kw ''wait'' (BoolV True)] w;
    w = call (Attr (self_component_thread_pool v) ''shutdown'') [Kw ''wait'' (BoolV True)] w;
    w = call (Attr (self_sig_pool v) ''shutdown'') [Kw ''wait'' (BoolV True)] w;
    w = call (Attr (self_executor v) ''stop'') [] w;
    w = call (Attr (self_context_manager v) ''stop'') [] w;
    w = call (Attr (self_block_publisher v) ''stop'') [] w;
    w = call (Attr (self_chain_controller v) ''stop'') [] w;
    w = call (Attr (self_block_validator v) ''stop'') [] w;
    threads = enumerate_threads env;
    w = query (Global ''threading.enumerate'') [] (ListV (map Thread threads)) w;
    w = query (Global ''threading.current_thread'') [] (Thread (current_thread env)) w
   in if current_thread env \<notin> set threads then Raised ValueError w
      else
        (case join_loop env fuel (remove1 (current_thread env) threads, 0, w) of
           Returned w \<Rightarrow>
             Returned (call (Global ''LOGGER.info'')
                         [Pos (StrV ''All threads have been stopped and joined'')] w)
         | other \<Rightarrow> other))"

section \<open>Validator.get_chain_head_state_root_hash\<close>

text \<open>
  \<^verbatim>\<open>self._chain_controller.chain_head.state_root_hash\<close>: the attribute access fails
  when the chain controller has no chain head. The world is returned as it was received.
\<close>

fun chain_head_of :: "world \<Rightarrow> val \<Rightarrow> block option" where
  "chain_head_of w (Ref n) = chain_head w n"
| "chain_head_of w v = None"

definition get_chain_head_state_root_hash :: "validator \<Rightarrow> world \<Rightarrow> (error + string) \<times> world" where
  "get_chain_head_state_root_hash v w =
     (case chain_head_of w (self_chain_controller v) of
        None \<Rightarrow> (Inl AttributeError, w)
      | Some head \<Rightarrow> (Inr (state_root_hash head), w))"

section \<open>The collaborators, as the specification describes them\<close>

text \<open>
  The classes that \<^verbatim>\<open>Validator\<close> wires together are defined in other modules. Where
  a property speaks of what they do with what they were given, their behaviour is taken
  from the specification, one definition for each sentence used, and reads its
  configuration from the heap and the trace that \<^verbatim>\<open>__init__\<close> produced.
\<close>

text \<open>The object a value was read from: \<^verbatim>\<open>x.queue_batch\<close> belongs to \<^verbatim>\<open>x\<close>.\<close>

fun owner :: "val \<Rightarrow> val" where
  "owner (Attr v a) = owner v"
| "owner v = v"

fun arg_val :: "arg \<Rightarrow> val" where
  "arg_val (Pos v) = v"
| "arg_val (Kw k v) = v"

text \<open>
  Everything that was handed to the object \<open>r\<close>: the arguments of its constructor and the
  arguments of every method call that the events \<open>es\<close> make on it.
\<close>

definition supplied :: "world \<Rightarrow> event list \<Rightarrow> val \<Rightarrow> val list" where
  "supplied w es r =
     (case deref w r of None \<Rightarrow> [] | Some ob \<Rightarrow> map arg_val (args ob)) @
     concat (map (\<lambda>c. map arg_val (snd c)) (calls_on r es))"

text \<open>The objects a validator does not keep on \<^verbatim>\<open>self\<close>, found through those it keeps.\<close>

definition block_cache_of :: "world \<Rightarrow> validator \<Rightarrow> val" where
  "block_cache_of w v =
     (case kwarg w (self_chain_controller v) ''block_cache'' of Some bc \<Rightarrow> bc | None \<Rightarrow> NoneV)"


text \<open>
  \<open>later w w'\<close>: the world \<open>w'\<close> still holds every object of \<open>w\<close> at its position.
\<close>

definition later :: "world \<Rightarrow> world \<Rightarrow> bool" where
  "later w w' = (take (length (heap w)) (heap w') = heap w)"

text \<open>The events that were recorded after a trace of length \<open>k\<close>.\<close>

definition since :: "nat \<Rightarrow> world \<Rightarrow> event list" where
  "since k w = drop k (trace w)"

text \<open>The receivers of the \<^verbatim>\<open>on_chain_update\<close> calls of a trace, in order.\<close>

fun notified :: "event list \<Rightarrow> val list" where
  "notified [] = []"
| "notified (Call (Attr ob m) as # es) =
     (if m = ''on_chain_update'' then ob # notified es else notified es)"
| "notified (e # es) = notified es"











text \<open>
  Modelled from the spec: the class \<^verbatim>\<open>ChainController\<close> is missing; sections 4.4, 4.5
  and 6: once the new head is in place, every observer is called, synchronously and in
  the order of the list the controller was given, with
  \<^verbatim>\<open>on_chain_update(new_head, committed_blocks, uncommitted_blocks)\<close>, and the callback
  \<^verbatim>\<open>on_chain_updated(new_head)\<close> is invoked. The spec fixes no order between the
  observers and that callback; the observers come first here. Fork choice, roll-back and
  the lock are left out.
\<close>

fun notify_observers :: "val list \<Rightarrow> block \<Rightarrow> val \<Rightarrow> val \<Rightarrow> world \<Rightarrow> world" where
  "notify_observers [] head committed uncommitted w = w"
| "notify_observers (ob # obs) head committed uncommitted w =
     notify_observers obs head committed uncommitted
       (call (Attr ob ''on_chain_update'') [Pos (BlockV head), Pos committed, Pos uncommitted] w)"

definition ChainController_commit :: "val \<Rightarrow> block \<Rightarrow> val \<Rightarrow> val \<Rightarrow> world \<Rightarrow> world" where
  "ChainController_commit cc head committed uncommitted w0 =
     (case cc of
        Ref n \<Rightarrow>
          (let w = w0\<lparr>chain_head := (chain_head w0)(n := Some head)\<rparr>;
               w = (case kwarg w cc ''chain_observers'' of
                      Some (ListV obs) \<Rightarrow> notify_observers obs head committed uncommitted w
                    | _ \<Rightarrow> w)
           in case kwarg w cc ''on_chain_updated'' of
                Some cb \<Rightarrow> call cb [Pos (BlockV head)] w
              | None \<Rightarrow> w)
      | _ \<Rightarrow> w0)"

text \<open>
  Modelled from the spec: \<^verbatim>\<open>GenesisController.start\<close> is missing; section 4.6: it
  constructs and commits the genesis block and then hands control to the callback.
\<close>

definition GenesisController_start :: "(world \<Rightarrow> world outcome) \<Rightarrow> world \<Rightarrow> world outcome" where
  "GenesisController_start on_complete w =
     on_complete (w\<lparr>trace := trace w @ [Internal GenesisController ''commit genesis block'']\<rparr>)"

text \<open>
  Modelled from the spec: the class \<^verbatim>\<open>BlockCache\<close> is missing; section 4.1: the cache
  holds blocks with the time of their last access; a sweep evicts a block that is not
  committed, whose last access is older than the time to live, and that the in-use
  predicate does not protect; the sweeper runs the sweep once a full period has passed
  since the previous one and leaves the cache alone in between. \<open>committed\<close> tells which
  hashes the durable store holds.
\<close>

record cache_entry =
  cached :: block
  last_access :: int

record block_cache =
  entries :: "cache_entry list"
  last_purge :: int

text \<open>
  Modelled from the spec: section 4.1: the last access of an entry exceeds the time to live.
\<close>

definition expired :: "int \<Rightarrow> int \<Rightarrow> cache_entry \<Rightarrow> bool" where
  "expired keep_time now e = (keep_time < now - last_access e)"

text \<open>
  Modelled from the spec: section 4.1: the sweep evicts a cached but uncommitted block whose
  last access exceeds the time to live, except a block that is still in use.
\<close>

definition evicts :: "(string \<Rightarrow> bool) \<Rightarrow> (string \<Rightarrow> bool) \<Rightarrow> int \<Rightarrow> int \<Rightarrow> cache_entry \<Rightarrow> bool" where
  "evicts committed in_use keep_time now e =
     (\<not> committed (block_id (cached e)) \<and> expired keep_time now e \<and> \<not> in_use (block_id (cached e)))"

definition sweep ::
  "(string \<Rightarrow> bool) \<Rightarrow> (string \<Rightarrow> bool) \<Rightarrow> int \<Rightarrow> int \<Rightarrow> cache_entry list \<Rightarrow> cache_entry list" where
  "sweep committed in_use keep_time now es =
     filter (\<lambda>e. \<not> evicts committed in_use keep_time now e) es"

text \<open>
  Modelled from the spec: section 4.1: the sweep runs on a fixed period and not at the
  moment an entry expires.
\<close>

definition sweeper ::
  "(string \<Rightarrow> bool) \<Rightarrow> (string \<Rightarrow> bool) \<Rightarrow> int \<Rightarrow> int \<Rightarrow> int \<Rightarrow> block_cache \<Rightarrow> block_cache" where
  "sweeper committed in_use keep_time purge_frequency now c =
     (if purge_frequency \<le> now - last_purge c
      then \<lparr>entries = sweep committed in_use keep_time now (entries c), last_purge = now\<rparr>
      else c)"

text \<open>The time to live and the sweep period that a block cache object was constructed with.\<close>

definition BlockCache_config :: "world \<Rightarrow> val \<Rightarrow> (int \<times> int) option" where
  "BlockCache_config w bc =
     (case (kwarg w bc ''keep_time'', kwarg w bc ''purge_frequency'') of
        (Some (IntV k), Some (IntV p)) \<Rightarrow> Some (k, p)
      | _ \<Rightarrow> None)"



text \<open>The calls by which \<^verbatim>\<open>_start\<close> starts the pipeline and \<^verbatim>\<open>stop\<close> stops the components.\<close>

definition pipeline_starts :: "validator \<Rightarrow> event list" where
  "pipeline_starts v =
     [Call (Attr (self_network_dispatcher v) ''start'') [],
      Call (Attr (self_network_service v) ''start'') [],
      Call (Attr (self_gossip v) ''start'') [],
      Call (Attr (self_block_publisher v) ''start'') [],
      Call (Attr (self_chain_controller v) ''start'') []]"

definition stop_calls :: "validator \<Rightarrow> event list" where
  "stop_calls v =
     [Call (Attr (self_gossip v) ''stop'') [],
      Call (Attr (self_component_dispatcher v) ''stop'') [],
      Call (Attr (self_network_dispatcher v) ''stop'') [],
      Call (Attr (self_network_service v) ''stop'') [],
      Call (Attr (self_component_service v) ''stop'') [],
      Call (Attr (self_network_thread_pool v) ''shutdown'') [Kw ''wait'' (BoolV True)],
      Call (Attr (self_component_thread_pool v) ''shutdown'') [Kw ''wait'' (BoolV True)],
      Call (Attr (self_sig_pool v) ''shutdown'') [Kw ''wait'' (BoolV True)],
      Call (Attr (self_executor v) ''stop'') [],
      Call (Attr (self_context_manager v) ''stop'') [],
      Call (Attr (self_block_publisher v) ''stop'') [],
      Call (Attr (self_chain_controller v) ''stop'') [],
      Call (Attr (self_block_validator v) ''stop'') []]"

text \<open>Thread \<open>t\<close> was seen dead and was joined.\<close>

definition joined :: "nat \<Rightarrow> event list \<Rightarrow> bool" where
  "joined t es =
     (Query (Attr (Thread t) ''is_alive'') [] (BoolV False) \<in> set es \<and>
      Call (Attr (Thread t) ''join'') [] \<in> set es)"


section \<open>A concrete run\<close>

definition args0 :: init_args where
  "args0 =
     \<lparr>bind_network = ''tcp://127.0.0.1:8800'', bind_component = ''tcp://127.0.0.1:4004'',
      endpoint = ''tcp://node0:8800'', peering = ''static'', seeds_list = [],
      peer_list = [''tcp://node1:8800''], data_dir = ''/var/lib/sawtooth'',
      config_dir = ''/etc/sawtooth'', identity_signing_key = ''k'',
      scheduler_type = ''serial'', permissions = NoneV, network_public_key = None,
      network_private_key = None, roles = NoneV, metrics_registry = NoneV\<rparr>"

definition env0 :: init_env where
  "env0 = \<lparr>time_digest = ''0123456789abcdef0123456789abcdef'',
           generate_public_key = (\<lambda>k. ''pub-'' @ k)\<rparr>"

definition world0 :: world where
  "world0 = \<lparr>heap = [], trace = [], chain_head = (\<lambda>n. None), batch_pool = (\<lambda>n. []),
             held = (\<lambda>n. [])\<rparr>"

definition block0 :: block where
  "block0 = \<lparr>block_id = ''b1'', previous_block_id = ''b0'', block_num = 1, batch_ids = [''t1''],
             state_root_hash = ''root1''\<rparr>"


definition validator0 :: validator where
  "validator0 = fst (init args0 env0 world0)"

definition wired0 :: world where
  "wired0 = snd (init args0 env0 world0)"


definition stop_env0 :: stop_env where
  "stop_env0 =
     \<lparr>enumerate_threads = [0, 1, 2], current_thread = 0,
      is_alive = (\<lambda>clock t. t = 2 \<and> clock < 2),
      thread_name = (\<lambda>t. if t = 0 then ''MainThread'' else if t = 1 then ''Thread-1'' else ''Thread-2''),
      thread_class = (\<lambda>t. if t = 0 then ''_MainThread'' else ''Thread'')\<rparr>"

definition entry0 :: cache_entry where
  "entry0 = \<lparr>cached = block0, last_access = 0\<rparr>"


definition uncommitted0 :: "string \<Rightarrow> bool" where
  "uncommitted0 h = False"


definition cache0 :: block_cache where
  "cache0 = \<lparr>entries = [entry0], last_purge = 290\<rparr>"

section \<open>What \<^verbatim>\<open>__init__\<close> builds\<close>

lemma calls_on_append: "calls_on r (xs @ ys) = calls_on r xs @ calls_on r ys"
  by (induction r xs rule: calls_on.induct) simp_all

text \<open>
  The references stored on \<^verbatim>\<open>self\<close>, the classes of the 38 objects in the order of
  their construction, and the arguments and calls that the properties below depend on,
  for every argument list and every world the constructor starts in.
\<close>

lemma cls_at:
  assumes "map cls_of h = map cls_of h0 @ cs" and "k < length cs"
  shows "cls_of (h ! (length h0 + k)) = cs ! k"
proof -
  have "length h = length h0 + length cs"
    using arg_cong [OF assms(1), of length] by simp
  then have "cls_of (h ! (length h0 + k)) = map cls_of h ! (length h0 + k)"
    using assms(2) by simp
  also have "\<dots> = cs ! k"
    by (simp add: assms(1) nth_append)
  finally show ?thesis .
qed

lemma init_wiring:
  "case init a env s of (v, w) \<Rightarrow>
     (let n = length (heap s) in
      v = \<lparr>self_component_dispatcher = Ref (n + 12),
           self_component_service = Ref (n + 14),
           self_component_thread_pool = Ref (n + 9),
           self_network_dispatcher = Ref (n + 13),
           self_network_service = Ref (n + 15),
           self_network_thread_pool = Ref (n + 10),
           self_sig_pool = Ref (n + 11),
           self_context_manager = Ref (n + 16),
           self_executor = Ref (n + 19),
           self_genesis_controller = Ref (n + 36),
           self_gossip = Ref (n + 22),
           self_block_publisher = Ref (n + 33),
           self_chain_controller = Ref (n + 35),
           self_block_validator = Ref (n + 34)\<rparr> \<and>
      length (heap w) = n + 38 \<and>
      map cls_of (heap w) = map cls_of (heap s) @
        [LMDBNoLockDatabase, StateViewFactory, LMDBNoLockDatabase, StateDeltaStore,
         LMDBNoLockDatabase, TransactionReceiptStore, LMDBNoLockDatabase, BlockStore,
         BlockCache, InstrumentedThreadPoolExecutor, InstrumentedThreadPoolExecutor,
         InstrumentedThreadPoolExecutor, Dispatcher, Dispatcher, Interconnect, Interconnect,
         ContextManager, BatchTracker, SettingsViewFactory, TransactionExecutor,
         StateDeltaProcessor, EventBroadcaster, Gossip, Completer, BroadcastBlockSender,
         BroadcastBatchSender, ChainIdManager, StateViewFactory, IdentityViewFactory,
         IdentityCache, PermissionVerifier, IdentityObserver, DefaultBatchInjectorFactory,
         BlockPublisher, BlockValidator, ChainController, GenesisController, Responder] \<and>
      args (heap w ! (n + 8)) =
        [Pos (Ref (n + 7)), Kw ''keep_time'' (IntV 300), Kw ''purge_frequency'' (IntV 30)] \<and>
      args (heap w ! (n + 23)) = [Pos (Ref (n + 7)), Pos (Ref (n + 22))] \<and>
      kwarg_in (args (heap w ! (n + 35))) ''block_cache'' = Some (Ref (n + 8)) \<and>
      kwarg_in (args (heap w ! (n + 35))) ''block_validator'' = Some (Ref (n + 34)) \<and>
      kwarg_in (args (heap w ! (n + 35))) ''chain_head_lock'' =
        Some (Attr (Ref (n + 33)) ''chain_head_lock'') \<and>
      kwarg_in (args (heap w ! (n + 35))) ''on_chain_updated'' =
        Some (Attr (Ref (n + 33)) ''on_chain_updated'') \<and>
      kwarg_in (args (heap w ! (n + 35))) ''chain_observers'' =
        Some (ListV [Ref (n + 20), Ref (n + 21), Ref (n + 5), Ref (n + 17), Ref (n + 31)]) \<and>
      kwarg_in (args (heap w ! (n + 36))) ''completer'' = Some (Ref (n + 23)) \<and>
      kwarg_in (args (heap w ! (n + 8))) ''keep_time'' = Some (IntV 300) \<and>
      kwarg_in (args (heap w ! (n + 8))) ''purge_frequency'' = Some (IntV 30) \<and>
      take n (heap w) = heap s \<and>
      take (length (trace s)) (trace w) = trace s \<and>
      calls_on (Ref (n + 23)) (drop (length (trace s)) (trace w)) =
        [(''set_on_batch_received'', [Pos (Attr (Ref (n + 33)) ''queue_batch'')]),
         (''set_on_block_received'', [Pos (Attr (Ref (n + 35)) ''queue_block'')])] \<and>
      calls_on (Ref (n + 8)) (drop (length (trace s)) (trace w)) = [] \<and>
      chain_head w = chain_head s \<and> batch_pool w = batch_pool s \<and> held w = held s)"
  by (simp add: init_def Let_def new_def call_def call_ret_def nth_append calls_on_append)

lemma init_classes:
  "case init a env s of (v, w) \<Rightarrow>
     (let n = length (heap s) in
      cls_of (heap w ! (n + 5)) = TransactionReceiptStore \<and>
      cls_of (heap w ! (n + 7)) = BlockStore \<and>
      cls_of (heap w ! (n + 8)) = BlockCache \<and>
      cls_of (heap w ! (n + 17)) = BatchTracker \<and>
      cls_of (heap w ! (n + 20)) = StateDeltaProcessor \<and>
      cls_of (heap w ! (n + 21)) = EventBroadcaster \<and>
      cls_of (heap w ! (n + 23)) = Completer \<and>
      cls_of (heap w ! (n + 31)) = IdentityObserver \<and>
      cls_of (heap w ! (n + 33)) = BlockPublisher \<and>
      cls_of (heap w ! (n + 34)) = BlockValidator \<and>
      cls_of (heap w ! (n + 35)) = ChainController \<and>
      cls_of (heap w ! (n + 36)) = GenesisController)"
proof (cases "init a env s")
  case (Pair v w)
  from init_wiring [where a = a and env = env and s = s] Pair
  have m: "map cls_of (heap w) = map cls_of (heap s) @
        [LMDBNoLockDatabase, StateViewFactory, LMDBNoLockDatabase, StateDeltaStore,
         LMDBNoLockDatabase, TransactionReceiptStore, LMDBNoLockDatabase, BlockStore,
         BlockCache, InstrumentedThreadPoolExecutor, InstrumentedThreadPoolExecutor,
         InstrumentedThreadPoolExecutor, Dispatcher, Dispatcher, Interconnect, Interconnect,
         ContextManager, BatchTracker, SettingsViewFactory, TransactionExecutor,
         StateDeltaProcessor, EventBroadcaster, Gossip, Completer, BroadcastBlockSender,
         BroadcastBatchSender, ChainIdManager, StateViewFactory, IdentityViewFactory,
         IdentityCache, PermissionVerifier, IdentityObserver, DefaultBatchInjectorFactory,
         BlockPublisher, BlockValidator, ChainController, GenesisController, Responder]"
    by (simp add: Let_def)
  note c = cls_at [OF m, unfolded length_map]
  show ?thesis
    using c [of 5] c [of 7] c [of 8] c [of 17] c [of 20] c [of 21] c [of 23] c [of 31]
      c [of 33] c [of 34] c [of 35] c [of 36]
    by (simp add: Pair Let_def)
qed

lemma later_refl: "later w w"
  by (simp add: later_def)

lemma later_deref:
  assumes "later w w'" and "deref w r = Some ob"
  shows "deref w' r = Some ob"
proof (cases r)
  case (Ref n)
  with assms(2) have n: "n < length (heap w)" and ob: "heap w ! n = ob"
    by (auto split: if_splits)
  from assms(1) have t: "take (length (heap w)) (heap w') = heap w"
    by (simp add: later_def)
  have "length (heap w) \<le> length (heap w')"
    using arg_cong [OF t, of length] by simp
  moreover have "heap w' ! n = heap w ! n"
    using nth_take [OF n, of "heap w'"] t by simp
  ultimately show ?thesis
    using Ref n ob by simp
qed (use assms(2) in simp_all)

lemma later_kwarg: "later w w' \<Longrightarrow> kwarg w r k = Some x \<Longrightarrow> kwarg w' r k = Some x"
  by (cases "deref w r") (simp_all add: kwarg_def later_deref)

lemma later_class_of: "later w w' \<Longrightarrow> class_of w r = Some c \<Longrightarrow> class_of w' r = Some c"
  by (cases "deref w r") (simp_all add: class_of_def later_deref)

lemma deref_heap: "heap w = heap w' \<Longrightarrow> deref w r = deref w' r"
  by (cases r) simp_all

lemma kwarg_heap: "heap w = heap w' \<Longrightarrow> kwarg w r k = kwarg w' r k"
  by (simp add: kwarg_def deref_heap [of w w'])


lemma notify_observers_heap: "heap (notify_observers obs h c u w) = heap w"
  by (induction obs arbitrary: w) (simp_all add: call_def)

lemma notify_observers_chain_head: "chain_head (notify_observers obs h c u w) = chain_head w"
  by (induction obs arbitrary: w) (simp_all add: call_def)

lemma notify_observers_trace:
  "trace (notify_observers obs h c u w) =
   trace w @ map (\<lambda>ob. Call (Attr ob ''on_chain_update'') [Pos (BlockV h), Pos c, Pos u]) obs"
  by (induction obs arbitrary: w) (simp_all add: call_def)

lemma notified_append: "notified (xs @ ys) = notified xs @ notified ys"
  by (induction xs rule: notified.induct) simp_all

lemma notified_map: "notified (map (\<lambda>ob. Call (Attr ob ''on_chain_update'') as) obs) = obs"
  by (induction obs) simp_all

lemma commit_trace:
  assumes "kwarg w (Ref n) ''chain_observers'' = Some (ListV obs)"
    and "kwarg w (Ref n) ''on_chain_updated'' = Some cb"
  shows "trace (ChainController_commit (Ref n) h c u w) =
         trace w @ map (\<lambda>ob. Call (Attr ob ''on_chain_update'') [Pos (BlockV h), Pos c, Pos u]) obs
           @ [Call cb [Pos (BlockV h)]]"
proof -
  let ?w1 = "w\<lparr>chain_head := (chain_head w)(n := Some h)\<rparr>"
  have k1: "kwarg ?w1 (Ref n) k = kwarg w (Ref n) k" for k
    by (rule kwarg_heap) simp
  have k2: "kwarg (notify_observers obs h c u ?w1) (Ref n) k = kwarg w (Ref n) k" for k
    using kwarg_heap [of "notify_observers obs h c u ?w1" w] by (simp add: notify_observers_heap)
  show ?thesis
    by (simp add: ChainController_commit_def Let_def k1 k2 assms notify_observers_trace call_def)
qed

lemma commit_chain_head:
  "chain_head (ChainController_commit (Ref n) h c u w) n = Some h"
  by (simp add: ChainController_commit_def Let_def call_def notify_observers_chain_head
      split: option.splits val.splits)

section \<open>The wiring of the chain controller\<close>

text \<open>
  Claim C5. The lock that \<^verbatim>\<open>__init__\<close> passes to the chain controller as
  \<^verbatim>\<open>chain_head_lock\<close> is the value read from the attribute \<^verbatim>\<open>chain_head_lock\<close> of
  the block publisher it has just constructed: the publisher and the controller hold one
  and the same lock object.
\<close>

theorem chain_head_lock_shared:
  "case init a env s of (v, w) \<Rightarrow>
     class_of w (self_block_publisher v) = Some BlockPublisher \<and>
     class_of w (self_chain_controller v) = Some ChainController \<and>
     kwarg w (self_chain_controller v) ''chain_head_lock'' =
       Some (Attr (self_block_publisher v) ''chain_head_lock'') \<and>
     owner (Attr (self_block_publisher v) ''chain_head_lock'') = self_block_publisher v"
  using init_wiring [where a = a and env = env and s = s]
    init_classes [where a = a and env = env and s = s]
  by (cases "init a env s") (simp add: Let_def kwarg_def class_of_def)

theorem chain_head_lock_shared_witness:
  "case init args0 env0 world0 of (v, w) \<Rightarrow>
     self_block_publisher v = Ref 33 \<and> self_chain_controller v = Ref 35 \<and>
     class_of w (Ref 33) = Some BlockPublisher \<and>
     class_of w (Ref 35) = Some ChainController \<and>
     kwarg w (Ref 35) ''chain_head_lock'' = Some (Attr (Ref 33) ''chain_head_lock'')"
  using chain_head_lock_shared [where a = args0 and env = env0 and s = world0]
    init_wiring [where a = args0 and env = env0 and s = world0]
  by (cases "init args0 env0 world0") (simp add: Let_def world0_def)

text \<open>
  Claim C2. The list \<^verbatim>\<open>chain_observers\<close> that the chain controller is given consists
  of the state delta processor, the event broadcaster, the receipt store, the batch
  tracker and the identity observer, in this order; a commit in any later world calls
  \<^verbatim>\<open>on_chain_update\<close> on exactly these five, in this order.
\<close>

theorem observers_notified_in_order:
  "case init a env s of (v, w) \<Rightarrow>
     (\<exists>obs. kwarg w (self_chain_controller v) ''chain_observers'' = Some (ListV obs) \<and>
        map (class_of w) obs =
          [Some StateDeltaProcessor, Some EventBroadcaster, Some TransactionReceiptStore,
           Some BatchTracker, Some IdentityObserver]) \<and>
     (\<forall>w' head committed uncommitted. later w w' \<longrightarrow>
        map (class_of w')
          (notified (since (length (trace w'))
             (ChainController_commit (self_chain_controller v) head committed uncommitted w'))) =
          [Some StateDeltaProcessor, Some EventBroadcaster, Some TransactionReceiptStore,
           Some BatchTracker, Some IdentityObserver])"
proof (cases "init a env s")
  case (Pair v w)
  let ?n = "length (heap s)"
  let ?obs = "[Ref (?n + 20), Ref (?n + 21), Ref (?n + 5), Ref (?n + 17), Ref (?n + 31)]"
  from init_wiring [where a = a and env = env and s = s] Pair
  have cc: "self_chain_controller v = Ref (?n + 35)"
    and len: "length (heap w) = ?n + 38"
    and obs: "kwarg_in (args (heap w ! (?n + 35))) ''chain_observers'' = Some (ListV ?obs)"
    and cb: "kwarg_in (args (heap w ! (?n + 35))) ''on_chain_updated'' =
               Some (Attr (Ref (?n + 33)) ''on_chain_updated'')"
    by (simp_all add: Let_def)
  from init_classes [where a = a and env = env and s = s] Pair len
  have cls: "map (class_of w) ?obs =
          [Some StateDeltaProcessor, Some EventBroadcaster, Some TransactionReceiptStore,
           Some BatchTracker, Some IdentityObserver]"
    by (simp add: Let_def class_of_def)
  have kobs: "kwarg w (Ref (?n + 35)) ''chain_observers'' = Some (ListV ?obs)"
    and kcb: "kwarg w (Ref (?n + 35)) ''on_chain_updated'' = Some (Attr (Ref (?n + 33)) ''on_chain_updated'')"
    using obs cb len by (simp_all add: kwarg_def)
  have "map (class_of w')
          (notified (since (length (trace w'))
             (ChainController_commit (Ref (?n + 35)) head committed uncommitted w'))) =
          [Some StateDeltaProcessor, Some EventBroadcaster, Some TransactionReceiptStore,
           Some BatchTracker, Some IdentityObserver]"
    if l: "later w w'" for w' head committed uncommitted
  proof -
    have "notified (since (length (trace w'))
             (ChainController_commit (Ref (?n + 35)) head committed uncommitted w')) = ?obs"
      by (simp add: since_def commit_trace [OF later_kwarg [OF l kobs] later_kwarg [OF l kcb]]
          notified_append notified_map)
    moreover have "map (class_of w') ?obs =
          [Some StateDeltaProcessor, Some EventBroadcaster, Some TransactionReceiptStore,
           Some BatchTracker, Some IdentityObserver]"
      using cls by (simp add: later_class_of [OF l])
    ultimately show ?thesis by simp
  qed
  with kobs cls cc show ?thesis
    by (simp add: Pair del: list.map)
qed

theorem observers_notified_in_order_witness:
  "case init args0 env0 world0 of (v, w) \<Rightarrow>
     later w w \<and>
     kwarg w (self_chain_controller v) ''chain_observers'' =
       Some (ListV [Ref 20, Ref 21, Ref 5, Ref 17, Ref 31]) \<and>
     map (class_of w)
       (notified (since (length (trace w))
          (ChainController_commit (self_chain_controller v) block0 (ListV []) (ListV []) w))) =
       [Some StateDeltaProcessor, Some EventBroadcaster, Some TransactionReceiptStore,
        Some BatchTracker, Some IdentityObserver]"
proof (cases "init args0 env0 world0")
  case (Pair v w)
  from observers_notified_in_order [where a = args0 and env = env0 and s = world0] Pair
  have "map (class_of w)
       (notified (since (length (trace w))
          (ChainController_commit (self_chain_controller v) block0 (ListV []) (ListV []) w))) =
       [Some StateDeltaProcessor, Some EventBroadcaster, Some TransactionReceiptStore,
        Some BatchTracker, Some IdentityObserver]"
    using later_refl [of w] by simp
  moreover from init_wiring [where a = args0 and env = env0 and s = world0] Pair
  have "kwarg w (self_chain_controller v) ''chain_observers'' =
       Some (ListV [Ref 20, Ref 21, Ref 5, Ref 17, Ref 31])"
    by (simp add: Let_def world0_def kwarg_def)
  ultimately show ?thesis
    by (simp add: Pair later_refl)
qed

text \<open>
  Claim C6. The callback \<^verbatim>\<open>on_chain_updated\<close> of the chain controller is the method
  \<^verbatim>\<open>on_chain_updated\<close> of the block publisher, and a commit in any later world sets
  the chain head and calls that method with the new head.
\<close>

theorem publisher_notified_on_commit:
  "case init a env s of (v, w) \<Rightarrow>
     class_of w (self_block_publisher v) = Some BlockPublisher \<and>
     class_of w (self_chain_controller v) = Some ChainController \<and>
     kwarg w (self_chain_controller v) ''on_chain_updated'' =
       Some (Attr (self_block_publisher v) ''on_chain_updated'') \<and>
     (\<forall>w' head committed uncommitted. later w w' \<longrightarrow>
        chain_head_of (ChainController_commit (self_chain_controller v) head committed uncommitted w')
          (self_chain_controller v) = Some head \<and>
        Call (Attr (self_block_publisher v) ''on_chain_updated'') [Pos (BlockV head)] \<in>
          set (since (length (trace w'))
                 (ChainController_commit (self_chain_controller v) head committed uncommitted w')))"
proof (cases "init a env s")
  case (Pair v w)
  let ?n = "length (heap s)"
  let ?obs = "[Ref (?n + 20), Ref (?n + 21), Ref (?n + 5), Ref (?n + 17), Ref (?n + 31)]"
  from init_wiring [where a = a and env = env and s = s] Pair
  have cc: "self_chain_controller v = Ref (?n + 35)"
    and bp: "self_block_publisher v = Ref (?n + 33)"
    and len: "length (heap w) = ?n + 38"
    and obs: "kwarg_in (args (heap w ! (?n + 35))) ''chain_observers'' = Some (ListV ?obs)"
    and cb: "kwarg_in (args (heap w ! (?n + 35))) ''on_chain_updated'' =
               Some (Attr (Ref (?n + 33)) ''on_chain_updated'')"
    by (simp_all add: Let_def)
  from init_classes [where a = a and env = env and s = s] Pair len
  have cls: "class_of w (Ref (?n + 33)) = Some BlockPublisher"
    "class_of w (Ref (?n + 35)) = Some ChainController"
    by (simp_all add: Let_def class_of_def)
  have kobs: "kwarg w (Ref (?n + 35)) ''chain_observers'' = Some (ListV ?obs)"
    and kcb: "kwarg w (Ref (?n + 35)) ''on_chain_updated'' = Some (Attr (Ref (?n + 33)) ''on_chain_updated'')"
    using obs cb len by (simp_all add: kwarg_def)
  have "Call (Attr (Ref (?n + 33)) ''on_chain_updated'') [Pos (BlockV head)] \<in>
          set (since (length (trace w'))
                 (ChainController_commit (Ref (?n + 35)) head committed uncommitted w'))"
    if l: "later w w'" for w' head committed uncommitted
    by (simp add: since_def commit_trace [OF later_kwarg [OF l kobs] later_kwarg [OF l kcb]])
  with kcb cls cc bp show ?thesis
    by (simp add: Pair commit_chain_head)
qed

theorem publisher_notified_on_commit_witness:
  "case init args0 env0 world0 of (v, w) \<Rightarrow>
     later w w \<and>
     kwarg w (Ref 35) ''on_chain_updated'' = Some (Attr (Ref 33) ''on_chain_updated'') \<and>
     chain_head_of (ChainController_commit (Ref 35) block0 (ListV []) (ListV []) w) (Ref 35) =
       Some block0 \<and>
     Call (Attr (Ref 33) ''on_chain_updated'') [Pos (BlockV block0)] \<in>
       set (since (length (trace w)) (ChainController_commit (Ref 35) block0 (ListV []) (ListV []) w))"
proof (cases "init args0 env0 world0")
  case (Pair v w)
  from init_wiring [where a = args0 and env = env0 and s = world0] Pair
  have v: "self_chain_controller v = Ref 35" "self_block_publisher v = Ref 33"
    by (simp_all add: Let_def world0_def)
  from publisher_notified_on_commit [where a = args0 and env = env0 and s = world0] Pair v
  show ?thesis
    using later_refl [of w] by (simp add: Pair)
qed

section \<open>Reading the state root of the chain head\<close>

text \<open>
  Claim C9. When the chain controller has a chain head, \<^verbatim>\<open>get_chain_head_state_root_hash\<close>
  returns the \<^verbatim>\<open>state_root_hash\<close> of that block and leaves the world as it was; the
  result is the same in every world whose chain head has the same state root, whatever
  else differs.
\<close>

theorem state_root_hash_of_chain_head:
  "chain_head_of w (self_chain_controller v) = Some head \<longrightarrow>
     get_chain_head_state_root_hash v w = (Inr (state_root_hash head), w) \<and>
     (\<forall>w' head'. chain_head_of w' (self_chain_controller v) = Some head' \<and>
         state_root_hash head' = state_root_hash head \<longrightarrow>
         fst (get_chain_head_state_root_hash v w') = fst (get_chain_head_state_root_hash v w))"
  by (simp add: get_chain_head_state_root_hash_def)

theorem state_root_hash_of_chain_head_witness:
  "case init args0 env0 world0 of (v, w) \<Rightarrow>
     (let w' = w\<lparr>chain_head := (\<lambda>n. if n = 35 then Some block0 else None)\<rparr>
      in chain_head_of w' (self_chain_controller v) = Some block0 \<and>
         get_chain_head_state_root_hash v w' = (Inr ''root1'', w'))"
proof (cases "init args0 env0 world0")
  case (Pair v w)
  from init_wiring [where a = args0 and env = env0 and s = world0] Pair
  have v: "self_chain_controller v = Ref 35"
    by (simp add: Let_def world0_def)
  let ?w' = "w\<lparr>chain_head := (\<lambda>n. if n = 35 then Some block0 else None)\<rparr>"
  have h: "chain_head_of ?w' (self_chain_controller v) = Some block0"
    by (simp add: v)
  from state_root_hash_of_chain_head [of ?w' v block0] h
  show ?thesis
    by (simp add: Pair v Let_def block0_def)
qed

section \<open>The wiring of the completer\<close>










section \<open>Starting and stopping\<close>

lemma wait_loop_extends: "\<exists>rest. trace (world_of (wait_loop ev sigs w)) = trace w @ rest"
proof (induction sigs arbitrary: w)
  case Nil
  show ?case by simp
next
  case (Cons s ss)
  show ?case
  proof (cases s)
    case True
    then show ?thesis by (simp add: query_def)
  next
    case False
    from Cons [of "call (Attr ev ''wait'') [Kw ''timeout'' (IntV 20)]
                     (query (Attr ev ''is_set'') [] (BoolV s) w)"]
    obtain rest where "trace (world_of (wait_loop ev ss
        (call (Attr ev ''wait'') [Kw ''timeout'' (IntV 20)] (query (Attr ev ''is_set'') [] (BoolV s) w)))) =
        trace (call (Attr ev ''wait'') [Kw ''timeout'' (IntV 20)] (query (Attr ev ''is_set'') [] (BoolV s) w)) @ rest"
      by blast
    with False show ?thesis
      by (simp add: query_def call_def Let_def)
  qed
qed

lemma start'_extends:
  "\<exists>rest. trace (world_of (start' v sigs w)) = trace w @ pipeline_starts v @ rest"
proof -
  let ?w = "call (Global ''signal.signal'')
          [Pos (Global ''signal.SIGTERM''), Pos (Handler (Attr (Ref (length (heap w))) ''set''))]
          (snd (new Event []
            (call (Attr (self_chain_controller v) ''start'') []
            (call (Attr (self_block_publisher v) ''start'') []
            (call (Attr (self_gossip v) ''start'') []
            (call (Attr (self_network_service v) ''start'') []
            (call (Attr (self_network_dispatcher v) ''start'') [] w)))))))"
  have e: "start' v sigs w = wait_loop (Ref (length (heap w))) sigs ?w"
    by (simp add: start'_def Let_def new_def call_def)
  obtain rest where "trace (world_of (wait_loop (Ref (length (heap w))) sigs ?w)) = trace ?w @ rest"
    using wait_loop_extends by blast
  then show ?thesis
    by (simp add: e pipeline_starts_def new_def call_def)
qed

text \<open>
  Claim C4. When genesis is required, \<^verbatim>\<open>start\<close> starts the two component services
  and hands \<^verbatim>\<open>_start\<close> to the genesis controller, whatever that does with it; with a
  genesis controller that commits the genesis block and then runs its callback, the five
  calls that start the pipeline follow the commit. When genesis is not required they follow
  the start of the component services directly.
\<close>

theorem genesis_before_pipeline:
  "(\<forall>g. start v True g sigs w =
          g (start' v sigs)
            (w\<lparr>trace := trace w @
               [Call (Attr (self_component_dispatcher v) ''start'') [],
                Call (Attr (self_component_service v) ''start'') [],
                Query (Attr (self_genesis_controller v) ''requires_genesis'') [] (BoolV True),
                Call (Attr (self_genesis_controller v) ''start'') [Pos (Attr Self ''_start'')]]\<rparr>)) \<and>
   (\<exists>rest. trace (world_of (start v True GenesisController_start sigs w)) =
      trace w @
        [Call (Attr (self_component_dispatcher v) ''start'') [],
         Call (Attr (self_component_service v) ''start'') [],
         Query (Attr (self_genesis_controller v) ''requires_genesis'') [] (BoolV True),
         Call (Attr (self_genesis_controller v) ''start'') [Pos (Attr Self ''_start'')],
         Internal GenesisController ''commit genesis block''] @
        pipeline_starts v @ rest) \<and>
   (\<exists>rest. trace (world_of (start v False g sigs w)) =
      trace w @
        [Call (Attr (self_component_dispatcher v) ''start'') [],
         Call (Attr (self_component_service v) ''start'') [],
         Query (Attr (self_genesis_controller v) ''requires_genesis'') [] (BoolV False)] @
        pipeline_starts v @ rest)"
proof (intro conjI allI)
  fix g
  show "start v True g sigs w =
          g (start' v sigs)
            (w\<lparr>trace := trace w @
               [Call (Attr (self_component_dispatcher v) ''start'') [],
                Call (Attr (self_component_service v) ''start'') [],
                Query (Attr (self_genesis_controller v) ''requires_genesis'') [] (BoolV True),
                Call (Attr (self_genesis_controller v) ''start'') [Pos (Attr Self ''_start'')]]\<rparr>)"
    by (simp add: start_def Let_def call_def query_def)
next
  let ?w = "w\<lparr>trace := trace w @
         [Call (Attr (self_component_dispatcher v) ''start'') [],
          Call (Attr (self_component_service v) ''start'') [],
          Query (Attr (self_genesis_controller v) ''requires_genesis'') [] (BoolV True),
          Call (Attr (self_genesis_controller v) ''start'') [Pos (Attr Self ''_start'')],
          Internal GenesisController ''commit genesis block'']\<rparr>"
  have e: "start v True GenesisController_start sigs w = start' v sigs ?w"
    by (simp add: start_def GenesisController_start_def Let_def call_def query_def)
  obtain rest where "trace (world_of (start' v sigs ?w)) = trace ?w @ pipeline_starts v @ rest"
    using start'_extends by blast
  then show "\<exists>rest. trace (world_of (start v True GenesisController_start sigs w)) =
      trace w @
        [Call (Attr (self_component_dispatcher v) ''start'') [],
         Call (Attr (self_component_service v) ''start'') [],
         Query (Attr (self_genesis_controller v) ''requires_genesis'') [] (BoolV True),
         Call (Attr (self_genesis_controller v) ''start'') [Pos (Attr Self ''_start'')],
         Internal GenesisController ''commit genesis block''] @
        pipeline_starts v @ rest"
    by (simp add: e)
next
  let ?w = "w\<lparr>trace := trace w @
         [Call (Attr (self_component_dispatcher v) ''start'') [],
          Call (Attr (self_component_service v) ''start'') [],
          Query (Attr (self_genesis_controller v) ''requires_genesis'') [] (BoolV False)]\<rparr>"
  have e: "start v False g sigs w = start' v sigs ?w"
    by (simp add: start_def Let_def call_def query_def)
  obtain rest where "trace (world_of (start' v sigs ?w)) = trace ?w @ pipeline_starts v @ rest"
    using start'_extends by blast
  then show "\<exists>rest. trace (world_of (start v False g sigs w)) =
      trace w @
        [Call (Attr (self_component_dispatcher v) ''start'') [],
         Call (Attr (self_component_service v) ''start'') [],
         Query (Attr (self_genesis_controller v) ''requires_genesis'') [] (BoolV False)] @
        pipeline_starts v @ rest"
    by (simp add: e)
qed

theorem genesis_before_pipeline_witness:
  "(\<exists>w'. start validator0 True GenesisController_start [False, True] wired0 = Returned w') \<and>
   (\<exists>rest. trace (world_of (start validator0 True GenesisController_start [False, True] wired0)) =
      trace wired0 @
        [Call (Attr (self_component_dispatcher validator0) ''start'') [],
         Call (Attr (self_component_service validator0) ''start'') [],
         Query (Attr (self_genesis_controller validator0) ''requires_genesis'') [] (BoolV True),
         Call (Attr (self_genesis_controller validator0) ''start'') [Pos (Attr Self ''_start'')],
         Internal GenesisController ''commit genesis block''] @
        pipeline_starts validator0 @ rest)"
proof
  show "\<exists>w'. start validator0 True GenesisController_start [False, True] wired0 = Returned w'"
    by (simp add: start_def start'_def GenesisController_start_def Let_def new_def call_def query_def)
  show "\<exists>rest. trace (world_of (start validator0 True GenesisController_start [False, True] wired0)) =
      trace wired0 @
        [Call (Attr (self_component_dispatcher validator0) ''start'') [],
         Call (Attr (self_component_service validator0) ''start'') [],
         Query (Attr (self_genesis_controller validator0) ''requires_genesis'') [] (BoolV True),
         Call (Attr (self_genesis_controller validator0) ''start'') [Pos (Attr Self ''_start'')],
         Internal GenesisController ''commit genesis block''] @
        pipeline_starts validator0 @ rest"
    by (rule genesis_before_pipeline [where v = validator0 and sigs = "[False, True]"
          and w = wired0 and g = GenesisController_start, THEN conjunct2, THEN conjunct1])
qed

lemma trace_call: "trace (call f as w) = trace w @ [Call f as]"
  by (simp add: call_def)

lemma trace_query: "trace (query f as r w) = trace w @ [Query f as r]"
  by (simp add: query_def)

lemma joined_append1: "joined t es \<Longrightarrow> joined t (es @ es')"
  by (simp add: joined_def)

lemma joined_append2: "joined t es' \<Longrightarrow> joined t (es @ es')"
  by (simp add: joined_def)

lemma join_body_inv:
  assumes "join_body env t (threads, clock, w) = (threads1, clock1, w1)"
  shows "\<exists>rest. trace w1 = trace w @ rest \<and> set threads1 \<subseteq> set threads \<and>
           (\<forall>x\<in>set threads. x \<in> set threads1 \<or> joined x rest)"
proof (cases "is_alive env clock t")
  case True
  with assms show ?thesis
    by (auto simp: join_body_def Let_def query_def call_def split: if_splits)
next
  case False
  have r: "x \<in> set threads \<Longrightarrow> x \<notin> set (remove1 t threads) \<Longrightarrow> x = t" for x
    by (metis in_set_remove1)
  have s: "set (remove1 t threads) \<subseteq> set threads"
    by (rule set_remove1_subset)
  show ?thesis
  proof (cases "remove1 t threads = []")
    case True
    with False assms have "trace w1 = trace w @ [Query (Attr (Thread t) ''is_alive'') [] (BoolV False),
        Call (Attr (Thread t) ''join'') []]" and "threads1 = remove1 t threads"
      by (auto simp: join_body_def Let_def query_def call_def)
    then show ?thesis
      using r s by (auto simp: joined_def)
  next
    case nonempty: False
    with False assms have "trace w1 = trace w @ [Query (Attr (Thread t) ''is_alive'') [] (BoolV False),
        Call (Attr (Thread t) ''join'') [], Call (Global ''time.sleep'') [Pos (IntV 1)]]"
      and "threads1 = remove1 t threads"
      by (auto simp: join_body_def Let_def query_def call_def)
    then show ?thesis
      using r s by (auto simp: joined_def)
  qed
qed

lemma join_pass_inv:
  "join_pass env ts (threads, clock, w) = (threads', clock', w') \<Longrightarrow>
   \<exists>rest. trace w' = trace w @ rest \<and> set threads' \<subseteq> set threads \<and>
          (\<forall>x\<in>set threads. x \<in> set threads' \<or> joined x rest)"
proof (induction ts arbitrary: threads clock w)
  case Nil
  then show ?case by simp
next
  case (Cons t ts)
  obtain threads1 clock1 w1 where b: "join_body env t (threads, clock, w) = (threads1, clock1, w1)"
    by (cases "join_body env t (threads, clock, w)")
  from join_body_inv [OF b] obtain r1 where
    r1: "trace w1 = trace w @ r1" "set threads1 \<subseteq> set threads"
      "\<forall>x\<in>set threads. x \<in> set threads1 \<or> joined x r1"
    by blast
  from Cons.prems b have "join_pass env ts (threads1, clock1, w1) = (threads', clock', w')"
    by simp
  from Cons.IH [OF this] obtain r2 where
    r2: "trace w' = trace w1 @ r2" "set threads' \<subseteq> set threads1"
      "\<forall>x\<in>set threads1. x \<in> set threads' \<or> joined x r2"
    by blast
  have "trace w' = trace w @ (r1 @ r2)"
    using r1(1) r2(1) by simp
  moreover have "set threads' \<subseteq> set threads"
    using r1(2) r2(2) by blast
  moreover have "\<forall>x\<in>set threads. x \<in> set threads' \<or> joined x (r1 @ r2)"
    using r1(3) r2(3) joined_append1 joined_append2 by blast
  ultimately show ?case by blast
qed

lemma join_loop_inv:
  "join_loop env fuel (threads, clock, w) = Returned w' \<Longrightarrow>
   \<exists>rest. trace w' = trace w @ rest \<and> (\<forall>x\<in>set threads. joined x rest)"
proof (induction fuel arbitrary: threads clock w)
  case 0
  then show ?case by (simp split: if_splits)
next
  case (Suc fuel)
  show ?case
  proof (cases "threads = []")
    case True
    with Suc.prems show ?thesis by simp
  next
    case False
    define w1 where "w1 = (if length threads < 4
                  then call (Global ''LOGGER.info'')
                         [Pos (StrV ''remaining threads: %s''), Pos (StrV (remaining env threads))] w
                  else w)"
    have "\<exists>r0. trace w1 = trace w @ r0"
      by (simp add: w1_def call_def)
    then obtain r0 where r0: "trace w1 = trace w @ r0"
      by blast
    obtain threads' clock' w2 where p: "join_pass env threads (threads, clock, w1) = (threads', clock', w2)"
      by (cases "join_pass env threads (threads, clock, w1)")
    from join_pass_inv [OF p] obtain r1 where
      r1: "trace w2 = trace w1 @ r1" "\<forall>x\<in>set threads. x \<in> set threads' \<or> joined x r1"
      by blast
    from Suc.prems False p have "join_loop env fuel (threads', clock', w2) = Returned w'"
      by (simp add: w1_def Let_def)
    from Suc.IH [OF this] obtain r2 where
      r2: "trace w' = trace w2 @ r2" "\<forall>x\<in>set threads'. joined x r2"
      by blast
    have "trace w' = trace w @ (r0 @ r1 @ r2)"
      using r0 r1(1) r2(1) by simp
    moreover have "\<forall>x\<in>set threads. joined x (r0 @ r1 @ r2)"
      using r1(2) r2(2) joined_append1 joined_append2 by blast
    ultimately show ?thesis by blast
  qed
qed

lemma stop_unfold:
  "\<exists>w1. trace w1 = trace w @ stop_calls v @
            [Query (Global ''threading.enumerate'') [] (ListV (map Thread (enumerate_threads env))),
             Query (Global ''threading.current_thread'') [] (Thread (current_thread env))] \<and>
     stop v env fuel w =
     (if current_thread env \<notin> set (enumerate_threads env) then Raised ValueError w1
      else
        (case join_loop env fuel (remove1 (current_thread env) (enumerate_threads env), 0, w1) of
           Returned w \<Rightarrow>
             Returned (call (Global ''LOGGER.info'')
                         [Pos (StrV ''All threads have been stopped and joined'')] w)
         | other \<Rightarrow> other))"
  unfolding stop_def Let_def
  apply (rule exI)
  apply (rule conjI)
   prefer 2
   apply (rule refl)
  apply (simp add: stop_calls_def trace_call trace_query)
  done

text \<open>
  Claim C10. When \<^verbatim>\<open>stop\<close> returns, it has made the thirteen calls that stop the
  components (the three pools with \<^verbatim>\<open>wait=True\<close>) in the order of the source, and
  every thread that \<^verbatim>\<open>threading.enumerate()\<close> returned, other than the calling thread,
  was then seen not alive and joined.
\<close>

theorem stop_joins_every_thread:
  "stop v env fuel w = Returned w' \<longrightarrow>
     current_thread env \<in> set (enumerate_threads env) \<and>
     (\<exists>rest. trace w' = trace w @ stop_calls v @ rest \<and>
        (\<forall>t\<in>set (enumerate_threads env). t \<noteq> current_thread env \<longrightarrow> joined t rest))"
proof
  assume ret: "stop v env fuel w = Returned w'"
  let ?pre = "[Query (Global ''threading.enumerate'') [] (ListV (map Thread (enumerate_threads env))),
               Query (Global ''threading.current_thread'') [] (Thread (current_thread env))]"
  from stop_unfold [of w v env fuel]
  obtain w1 where t1: "trace w1 = trace w @ stop_calls v @ ?pre"
    and e: "stop v env fuel w =
     (if current_thread env \<notin> set (enumerate_threads env) then Raised ValueError w1
      else
        (case join_loop env fuel (remove1 (current_thread env) (enumerate_threads env), 0, w1) of
           Returned w \<Rightarrow>
             Returned (call (Global ''LOGGER.info'')
                         [Pos (StrV ''All threads have been stopped and joined'')] w)
         | other \<Rightarrow> other))"
    by blast
  from ret e have cur: "current_thread env \<in> set (enumerate_threads env)"
    by (auto split: if_splits)
  from ret e cur obtain w2 where
    l: "join_loop env fuel (remove1 (current_thread env) (enumerate_threads env), 0, w1) = Returned w2"
    and w': "w' = call (Global ''LOGGER.info'')
                         [Pos (StrV ''All threads have been stopped and joined'')] w2"
    by (auto split: outcome.splits)
  from join_loop_inv [OF l] obtain r where
    r: "trace w2 = trace w1 @ r"
      "\<forall>x\<in>set (remove1 (current_thread env) (enumerate_threads env)). joined x r"
    by blast
  let ?post = "[Call (Global ''LOGGER.info'') [Pos (StrV ''All threads have been stopped and joined'')]]"
  have "trace w' = trace w @ stop_calls v @ (?pre @ r @ ?post)"
    using r(1) t1 by (simp add: w' call_def)
  moreover have "\<forall>t\<in>set (enumerate_threads env). t \<noteq> current_thread env \<longrightarrow> joined t (?pre @ r @ ?post)"
  proof (intro ballI impI)
    fix t assume "t \<in> set (enumerate_threads env)" "t \<noteq> current_thread env"
    then have "t \<in> set (remove1 (current_thread env) (enumerate_threads env))"
      by (simp add: in_set_remove1)
    with r(2) have "joined t r" by blast
    then show "joined t (?pre @ r @ ?post)"
      by (intro joined_append2 joined_append1)
  qed
  ultimately show "current_thread env \<in> set (enumerate_threads env) \<and>
     (\<exists>rest. trace w' = trace w @ stop_calls v @ rest \<and>
        (\<forall>t\<in>set (enumerate_threads env). t \<noteq> current_thread env \<longrightarrow> joined t rest))"
    using cur by blast
qed

text \<open>
  The loop ends: when every thread it waits for is dead after \<open>n\<close> sleeps, \<open>n + 1\<close>
  runs of the loop body suffice.
\<close>

lemma join_body_step:
  assumes "join_body env t (threads, clock, w) = (threads1, clock1, w1)"
  shows "clock \<le> clock1 \<and> (threads1 \<noteq> [] \<longrightarrow> clock1 = Suc clock) \<and>
         (\<not> is_alive env clock t \<longrightarrow> threads1 = remove1 t threads)"
  using assms by (auto simp: join_body_def Let_def split: if_splits)

lemma fold_remove1_self: "fold remove1 xs (xs @ ys) = ys"
  by (induction xs) simp_all

lemma join_pass_dead:
  assumes "\<forall>t\<in>set ts. \<forall>c\<ge>clock. \<not> is_alive env c t"
  shows "fst (join_pass env ts (threads, clock, w)) = fold remove1 ts threads"
  using assms
proof (induction ts arbitrary: threads clock w)
  case Nil
  show ?case by simp
next
  case (Cons t ts)
  obtain threads1 clock1 w1 where b: "join_body env t (threads, clock, w) = (threads1, clock1, w1)"
    by (cases "join_body env t (threads, clock, w)")
  from Cons.prems have "\<not> is_alive env clock t" by simp
  with join_body_step [OF b] have s: "clock \<le> clock1" "threads1 = remove1 t threads"
    by simp_all
  from Cons.prems s(1) have "\<forall>t\<in>set ts. \<forall>c\<ge>clock1. \<not> is_alive env c t"
    by simp
  from Cons.IH [OF this, of threads1 w1] show ?case
    by (simp add: b s(2))
qed

lemma join_pass_clock:
  "join_pass env ts (threads, clock, w) = (threads', clock', w') \<Longrightarrow> threads' \<noteq> [] \<Longrightarrow>
   clock' = clock + length ts"
proof (induction ts arbitrary: threads clock w)
  case Nil
  then show ?case by simp
next
  case (Cons t ts)
  obtain threads1 clock1 w1 where b: "join_body env t (threads, clock, w) = (threads1, clock1, w1)"
    by (cases "join_body env t (threads, clock, w)")
  from Cons.prems(1) b have p: "join_pass env ts (threads1, clock1, w1) = (threads', clock', w')"
    by simp
  from join_pass_inv [OF p] Cons.prems(2) have "threads1 \<noteq> []"
    by auto
  with join_body_step [OF b] have "clock1 = Suc clock" by simp
  with Cons.IH [OF p Cons.prems(2)] show ?case by simp
qed

lemma join_loop_nil: "join_loop env fuel ([], clock, w) = Returned w"
  by (cases fuel) simp_all

lemma join_loop_returns:
  "\<forall>t\<in>set threads. \<forall>c\<ge>n. \<not> is_alive env c t \<Longrightarrow> n - clock < fuel \<Longrightarrow>
   \<exists>w'. join_loop env fuel (threads, clock, w) = Returned w'"
proof (induction fuel arbitrary: threads clock w)
  case 0
  then show ?case by simp
next
  case (Suc fuel)
  show ?case
  proof (cases "threads = []")
    case True
    then show ?thesis by simp
  next
    case False
    define w1 where "w1 = (if length threads < 4
                  then call (Global ''LOGGER.info'')
                         [Pos (StrV ''remaining threads: %s''), Pos (StrV (remaining env threads))] w
                  else w)"
    obtain threads' clock' w2 where p: "join_pass env threads (threads, clock, w1) = (threads', clock', w2)"
      by (cases "join_pass env threads (threads, clock, w1)")
    have step: "join_loop env (Suc fuel) (threads, clock, w) = join_loop env fuel (threads', clock', w2)"
      using False p by (simp add: w1_def Let_def)
    show ?thesis
    proof (cases "threads' = []")
      case True
      have "join_loop env (Suc fuel) (threads, clock, w) = Returned w2"
        by (simp only: step True join_loop_nil)
      then show ?thesis by blast
    next
      case nonempty: False
      have late: "\<not> n \<le> clock"
      proof
        assume "n \<le> clock"
        with Suc.prems(1) have "\<forall>t\<in>set threads. \<forall>c\<ge>clock. \<not> is_alive env c t"
          by simp
        from join_pass_dead [OF this, of threads w1] p have "threads' = fold remove1 threads threads"
          by simp
        then have "threads' = []"
          using fold_remove1_self [of threads "[]"] by simp
        with nonempty show False by simp
      qed
      from join_pass_clock [OF p nonempty] False have "clock < clock'"
        by (cases threads) simp_all
      with late Suc.prems(2) have f: "n - clock' < fuel"
        by simp
      from join_pass_inv [OF p] have "set threads' \<subseteq> set threads"
        by blast
      with Suc.prems(1) have "\<forall>t\<in>set threads'. \<forall>c\<ge>n. \<not> is_alive env c t"
        by blast
      from Suc.IH [OF this f] show ?thesis
        by (simp only: step)
    qed
  qed
qed

lemma stop_returns:
  assumes "current_thread env \<in> set (enumerate_threads env)"
    and "\<forall>t\<in>set (remove1 (current_thread env) (enumerate_threads env)). \<forall>c\<ge>n. \<not> is_alive env c t"
  shows "\<exists>w'. stop v env (Suc n) w = Returned w'"
proof -
  from stop_unfold [of w v env "Suc n"]
  obtain w1 where e: "stop v env (Suc n) w =
     (if current_thread env \<notin> set (enumerate_threads env) then Raised ValueError w1
      else
        (case join_loop env (Suc n) (remove1 (current_thread env) (enumerate_threads env), 0, w1) of
           Returned w \<Rightarrow>
             Returned (call (Global ''LOGGER.info'')
                         [Pos (StrV ''All threads have been stopped and joined'')] w)
         | other \<Rightarrow> other))"
    by blast
  have "n - 0 < Suc n" by simp
  from join_loop_returns [OF assms(2) this, of w1]
  obtain w2 where "join_loop env (Suc n) (remove1 (current_thread env) (enumerate_threads env), 0, w1)
      = Returned w2"
    by blast
  with assms(1) show ?thesis
    by (simp only: e) simp
qed

theorem stop_joins_every_thread_witness:
  "\<exists>w'. stop validator0 stop_env0 3 wired0 = Returned w' \<and>
        current_thread stop_env0 \<in> set (enumerate_threads stop_env0) \<and>
        (\<exists>rest. trace w' = trace wired0 @ stop_calls validator0 @ rest \<and>
           joined 1 rest \<and> joined 2 rest)"
proof -
  have "\<exists>w'. stop validator0 stop_env0 (Suc 2) wired0 = Returned w'"
    by (rule stop_returns) (simp_all add: stop_env0_def)
  then obtain w' where r: "stop validator0 stop_env0 3 wired0 = Returned w'"
    by (auto simp: numeral_3_eq_3)
  from stop_joins_every_thread [of validator0 stop_env0 3 wired0 w'] r
  obtain rest where "trace w' = trace wired0 @ stop_calls validator0 @ rest"
    and "\<forall>t\<in>set (enumerate_threads stop_env0). t \<noteq> current_thread stop_env0 \<longrightarrow> joined t rest"
    by blast
  moreover from this(2) have "joined 1 rest \<and> joined 2 rest"
    by (simp add: stop_env0_def)
  ultimately show ?thesis
    using r by (auto simp: stop_env0_def)
qed

section \<open>The block cache\<close>

lemma init_block_cache:
  assumes "init a env s = (v, w)"
  shows "block_cache_of w v = Ref (length (heap s) + 8) \<and>
         class_of w (block_cache_of w v) = Some BlockCache \<and>
         class_of w (Ref (length (heap s) + 7)) = Some BlockStore \<and>
         BlockCache_config w (block_cache_of w v) = Some (300, 30) \<and>
         supplied w (since (length (trace s)) w) (block_cache_of w v) =
           [Ref (length (heap s) + 7), IntV 300, IntV 30]"
proof -
  let ?n = "length (heap s)"
  from init_wiring [where a = a and env = env and s = s] assms
  have v: "self_chain_controller v = Ref (?n + 35)"
    and len: "length (heap w) = ?n + 38"
    and bc: "kwarg_in (args (heap w ! (?n + 35))) ''block_cache'' = Some (Ref (?n + 8))"
    and ar: "args (heap w ! (?n + 8)) =
        [Pos (Ref (?n + 7)), Kw ''keep_time'' (IntV 300), Kw ''purge_frequency'' (IntV 30)]"
    and calls: "calls_on (Ref (?n + 8)) (drop (length (trace s)) (trace w)) = []"
    by (simp_all add: Let_def)
  from init_classes [where a = a and env = env and s = s] assms len
  have cls: "class_of w (Ref (?n + 8)) = Some BlockCache" "class_of w (Ref (?n + 7)) = Some BlockStore"
    by (simp_all add: Let_def class_of_def)
  have b: "block_cache_of w v = Ref (?n + 8)"
    using bc len v by (simp add: block_cache_of_def kwarg_def)
  have cfg: "BlockCache_config w (Ref (?n + 8)) = Some (300, 30)"
    using ar len by (simp add: BlockCache_config_def kwarg_def)
  have sup: "supplied w (since (length (trace s)) w) (Ref (?n + 8)) = [Ref (?n + 7), IntV 300, IntV 30]"
    using ar len calls by (simp add: supplied_def since_def)
  show ?thesis
    using b cls cfg sup by simp
qed


lemma sweep_evicted:
  "e \<in> set es \<Longrightarrow> e \<notin> set (sweep committed in_use keep_time now es) \<Longrightarrow>
   keep_time < now - last_access e \<and> \<not> committed (block_id (cached e)) \<and>
   \<not> in_use (block_id (cached e))"
  by (auto simp: sweep_def evicts_def expired_def)


text \<open>
  Claim C8. The block cache is constructed with a time to live of 300 and a sweep period of
  30. With these, the sweeper leaves the cache as it is until a full period has passed since
  the previous sweep, however old the entries are; when the period has passed it sweeps and
  records the time; and an entry is gone after a run of the sweeper only if the period had
  passed, its last access is more than 300 ago and its block is not committed.
\<close>

theorem cache_sweep_is_lazy:
  "case init a env s of (v, w) \<Rightarrow>
     class_of w (block_cache_of w v) = Some BlockCache \<and>
     BlockCache_config w (block_cache_of w v) = Some (300, 30) \<and>
     (\<forall>committed in_use now c e.
        (now - last_purge c < 30 \<longrightarrow> sweeper committed in_use 300 30 now c = c) \<and>
        (30 \<le> now - last_purge c \<longrightarrow>
           sweeper committed in_use 300 30 now c =
             \<lparr>entries = sweep committed in_use 300 now (entries c), last_purge = now\<rparr>) \<and>
        (e \<in> set (entries c) \<and> e \<notin> set (entries (sweeper committed in_use 300 30 now c)) \<longrightarrow>
           30 \<le> now - last_purge c \<and> 300 < now - last_access e \<and>
           \<not> committed (block_id (cached e))))"
proof (cases "init a env s")
  case (Pair v w)
  note bc = init_block_cache [OF Pair]
  have every: "\<forall>committed in_use now c e.
        (now - last_purge c < 30 \<longrightarrow> sweeper committed in_use 300 30 now c = c) \<and>
        (30 \<le> now - last_purge c \<longrightarrow>
           sweeper committed in_use 300 30 now c =
             \<lparr>entries = sweep committed in_use 300 now (entries c), last_purge = now\<rparr>) \<and>
        (e \<in> set (entries c) \<and> e \<notin> set (entries (sweeper committed in_use 300 30 now c)) \<longrightarrow>
           30 \<le> now - last_purge c \<and> 300 < now - last_access e \<and>
           \<not> committed (block_id (cached e)))"
  proof (intro allI conjI impI)
    fix committed in_use :: "string \<Rightarrow> bool" and now :: int and c :: block_cache
      and e :: cache_entry
    show "sweeper committed in_use 300 30 now c = c" if "now - last_purge c < 30"
      using that by (simp add: sweeper_def)
    show "sweeper committed in_use 300 30 now c =
             \<lparr>entries = sweep committed in_use 300 now (entries c), last_purge = now\<rparr>"
      if "30 \<le> now - last_purge c"
      using that by (simp add: sweeper_def)
    assume h: "e \<in> set (entries c) \<and> e \<notin> set (entries (sweeper committed in_use 300 30 now c))"
    then have p: "30 \<le> now - last_purge c"
      by (cases "30 \<le> now - last_purge c") (simp_all add: sweeper_def)
    with h have "e \<notin> set (sweep committed in_use 300 now (entries c))"
      by (simp add: sweeper_def)
    from sweep_evicted [OF h [THEN conjunct1] this] p
    show "30 \<le> now - last_purge c" "300 < now - last_access e"
      "\<not> committed (block_id (cached e))"
      by simp_all
  qed
  show ?thesis
    unfolding Pair prod.case
    by (rule conjI bc [THEN conjunct2, THEN conjunct1]
          bc [THEN conjunct2, THEN conjunct2, THEN conjunct2, THEN conjunct1] every)+
qed

theorem cache_sweep_is_lazy_witness:
  "BlockCache_config wired0 (block_cache_of wired0 validator0) = Some (300, 30) \<and>
   expired 300 310 entry0 \<and>
   sweeper uncommitted0 uncommitted0 300 30 310 cache0 = cache0 \<and>
   sweeper uncommitted0 uncommitted0 300 30 320 cache0 = \<lparr>entries = [], last_purge = 320\<rparr> \<and>
   entry0 \<in> set (entries cache0) \<and>
   entry0 \<notin> set (entries (sweeper uncommitted0 uncommitted0 300 30 320 cache0)) \<and>
   30 \<le> 320 - last_purge cache0 \<and> 300 < 320 - last_access entry0"
proof -
  obtain v w where Pair: "init args0 env0 world0 = (v, w)"
    by (cases "init args0 env0 world0")
  have vw: "validator0 = v" "wired0 = w"
    by (simp_all add: validator0_def wired0_def Pair)
  note T = cache_sweep_is_lazy [where a = args0 and env = env0 and s = world0,
      unfolded Pair prod.case]
  note cfg = T [THEN conjunct2, THEN conjunct1]
  note sw = T [THEN conjunct2, THEN conjunct2, rule_format, of _ cache0]
  have a: "sweeper uncommitted0 uncommitted0 300 30 310 cache0 = cache0"
    by (rule sw [of 310 uncommitted0 uncommitted0 entry0, THEN conjunct1, rule_format])
       (simp add: cache0_def)
  have b: "sweeper uncommitted0 uncommitted0 300 30 320 cache0 =
             \<lparr>entries = sweep uncommitted0 uncommitted0 300 320 (entries cache0), last_purge = 320\<rparr>"
    by (rule sw [of 320 uncommitted0 uncommitted0 entry0, THEN conjunct2, THEN conjunct1, rule_format])
       (simp add: cache0_def)
  have c: "sweep uncommitted0 uncommitted0 300 320 (entries cache0) = []"
    by (simp add: sweep_def evicts_def expired_def cache0_def entry0_def uncommitted0_def)
  show ?thesis
    using cfg a b c
    by (simp add: vw cache0_def entry0_def expired_def)
qed




end
